theory Spec2Isabelle
  imports Main "HOL-Library.Word"
begin

section \<open>Network device management (src/net/netdevice.c)\<close>

text \<open>
  A shallow embedding of \<^verbatim>\<open>src/net/netdevice.c\<close>: the receive queue, the
  lookup of network-layer protocols and of bound addresses, the dispatch of one received
  packet and the single step of the network stack.

  Pointers are natural numbers. A pointer to a packet buffer or to a link-layer protocol
  is an address of the memory kept in the state (\<open>pk_buff_at\<close>, \<open>ll_protocol_at\<close>); a
  pointer to a network-layer protocol is an index into the table \<open>net_protocols\<close>, the
  array that lies between \<^verbatim>\<open>net_protocols\<close> and \<^verbatim>\<open>net_protocols_end\<close>. The
  null pointer is \<open>None\<close>. The debug macro \<^verbatim>\<open>DBG\<close> prints and does nothing else;
  it is left out, and so is \<^verbatim>\<open>init_net\<close>, which schedules the process of
  \<open>net_step\<close> once at start-up.
\<close>

subsection \<open>Data\<close>

type_synonym u8 = "8 word"
type_synonym u16 = "16 word"

text \<open>
  Modelled from the spec: \<^verbatim>\<open>struct pk_buff\<close> is declared in
  \<^verbatim>\<open>gpxe/pkbuff.h\<close>, which is not under src/. The spec gives a packet buffer its
  byte content, a tag for the link-layer protocol that delivered it and a tag for the
  resolved network-layer protocol, initially unset. The source reads and writes the two
  tags as \<^verbatim>\<open>pkb->ll_protocol\<close> and \<^verbatim>\<open>pkb->net_protocol\<close>.
\<close>

record pk_buff =
  pkb_data :: "u8 list"
  pkb_ll_protocol :: nat
  pkb_net_protocol :: "nat option"

text \<open>
  Modelled from the spec: \<^verbatim>\<open>struct ll_header\<close> is declared in
  \<^verbatim>\<open>gpxe/netdevice.h\<close>, which is not under src/. The source reads its field
  \<^verbatim>\<open>net_proto\<close> only. The spec lets the link-layer parsing capability return a
  header length beside the network-layer protocol id; that is \<open>llh_header_len\<close>.
\<close>

record ll_header =
  llh_net_proto :: u16
  llh_header_len :: nat

text \<open>
  The capabilities the source calls through function pointers:
  \<^verbatim>\<open>ll_protocol->parse_llh ( pkb, &llhdr )\<close>,
  \<^verbatim>\<open>net_protocol->net_proto\<close>, \<^verbatim>\<open>net_protocol->net_addr_len\<close>,
  \<^verbatim>\<open>net_protocol->rx_process ( pkb )\<close>, and the fields
  \<^verbatim>\<open>net_address->net_protocol\<close> and \<^verbatim>\<open>net_address->net_addr\<close> of an
  entry of the address table. A handler is a collaborator outside this file: the model
  takes from it the status code it returns for the buffer it is given, and records the
  call (see \<open>rx_processed\<close> below).
\<close>

record ll_protocol =
  parse_llh :: "pk_buff \<Rightarrow> ll_header"

record net_protocol =
  net_proto :: u16
  net_addr_len :: nat
  rx_process :: "pk_buff \<Rightarrow> int"

record net_address =
  na_net_protocol :: nat
  net_addr :: "u8 list"

text \<open>
  The globals of the file, the memory its pointers refer to, and what its calls to
  collaborators leave behind:
  \<^item> \<open>net_protocols\<close>, \<open>static_single_netdev_addresses\<close>: the two linker tables;
  \<^item> \<open>rx_queue\<close>: the received packet queue, a list of packet buffer pointers, head first;
  \<^item> \<open>ll_protocol_at\<close>, \<open>pk_buff_at\<close>: the link-layer protocol and the packet buffer
    at an address;
  \<^item> \<open>freed\<close>: the buffers given to \<^verbatim>\<open>free_pkb\<close>, oldest first;
  \<^item> \<open>rx_processed\<close>: the calls of \<^verbatim>\<open>rx_process\<close> entry points, oldest first: the
    protocol called, the buffer pointer, and the buffer as it was when handed over;
  \<^item> \<open>run_queue\<close>: the processes given to \<^verbatim>\<open>schedule\<close>, oldest first.
\<close>

record net_state =
  net_protocols :: "net_protocol list"
  static_single_netdev_addresses :: "net_address list"
  rx_queue :: "nat list"
  ll_protocol_at :: "nat \<Rightarrow> ll_protocol"
  pk_buff_at :: "nat \<Rightarrow> pk_buff"
  freed :: "nat list"
  rx_processed :: "(nat \<times> nat \<times> pk_buff) list"
  run_queue :: "nat list"

text \<open>
  \<^verbatim>\<open>struct net_device\<close>, as far as this file uses it: the link-layer protocol of
  the device and its \<^verbatim>\<open>poll\<close> method. The method is the driver's; it may do
  anything to the state, in particular call \<open>netdev_rx\<close> any number of times. The
  single instance \<^verbatim>\<open>static_single_netdev\<close> is passed to the functions that name it.
\<close>

record net_device =
  nd_ll_protocol :: nat
  poll :: "net_state \<Rightarrow> net_state"

subsection \<open>Constants and helpers declared outside src/\<close>

text \<open>
  Modelled from the spec: \<^verbatim>\<open>ETH_HLEN\<close> is declared in \<^verbatim>\<open>gpxe/if_ether.h\<close>,
  which is not under src/. It is the length of an Ethernet header, the single
  link-layer header length the spec says the reference implementation hard-codes: 14.
\<close>

definition ETH_HLEN :: nat where
  "ETH_HLEN = 14"

text \<open>
  Modelled from the spec: \<^verbatim>\<open>EPROTONOSUPPORT\<close> is declared in \<^verbatim>\<open>errno.h\<close>,
  which is not under src/. It is the code of the spec's \<open>UnsupportedProtocol\<close>; the
  number stands for whatever the header defines, and no statement below depends on it.
\<close>

definition EPROTONOSUPPORT :: int where
  "EPROTONOSUPPORT = 93"

text \<open>
  Modelled from the spec: the list primitives of \<^verbatim>\<open>gpxe/list.h\<close>, which is not
  under src/. The spec's queue is an ordered sequence: push appends to the tail, pop
  removes the head. The node that the source links is embedded in the buffer
  (\<^verbatim>\<open>&pkb->list\<close>), so in C a buffer is in the list at most once. Of adding an
  entry that is in the list already the spec says nothing; in C the links of its node
  are overwritten and the list is a sequence no more, and the model appends a second
  occurrence. The model is the source's for pushes of buffers that the queue does not
  hold (\<open>owned\<close> below).
\<close>

definition list_add_tail :: "nat \<Rightarrow> nat list \<Rightarrow> nat list" where
  "list_add_tail new head = head @ [new]"

definition list_del :: "nat \<Rightarrow> nat list \<Rightarrow> nat list" where
  "list_del entry head = remove1 entry head"

definition list_empty :: "nat list \<Rightarrow> bool" where
  "list_empty head = (head = [])"

text \<open>
  Modelled from the spec: \<^verbatim>\<open>pkb_pull\<close> and \<^verbatim>\<open>free_pkb\<close> of
  \<^verbatim>\<open>gpxe/pkbuff.h\<close>, which is not under src/. The spec's buffer supports removing N
  bytes from its head; of a buffer that holds fewer than N bytes the spec says nothing,
  and the model then removes all of them. Destroying a buffer is recorded in \<open>freed\<close>.
\<close>

definition pkb_pull :: "nat \<Rightarrow> nat \<Rightarrow> net_state \<Rightarrow> net_state" where
  "pkb_pull pkb len s =
     s\<lparr>pk_buff_at := (pk_buff_at s)
         (pkb := (pk_buff_at s pkb)\<lparr>pkb_data := drop len (pkb_data (pk_buff_at s pkb))\<rparr>)\<rparr>"

definition free_pkb :: "nat \<Rightarrow> net_state \<Rightarrow> net_state" where
  "free_pkb pkb s = s\<lparr>freed := freed s @ [pkb]\<rparr>"

text \<open>
  Modelled from the spec: \<^verbatim>\<open>schedule\<close> of \<^verbatim>\<open>gpxe/process.h\<close>, which is not
  under src/: it hands a process to the external cooperative scheduler for its next
  invocation.
\<close>

definition schedule :: "nat \<Rightarrow> net_state \<Rightarrow> net_state" where
  "schedule process s = s\<lparr>run_queue := run_queue s @ [process]\<rparr>"

text \<open>
  \<^verbatim>\<open>memcmp\<close> on two byte regions, given as the bytes from the pointer to the end
  of the object it points into. Reading past the end of either region is undefined in C:
  the result is \<open>None\<close>.
\<close>

fun memcmp :: "u8 list \<Rightarrow> u8 list \<Rightarrow> nat \<Rightarrow> int option" where
  "memcmp a b 0 = Some 0"
| "memcmp (x # a) (y # b) (Suc n) =
     (if x = y then memcmp a b n else Some (int (unat x) - int (unat y)))"
| "memcmp a b (Suc n) = None"

subsection \<open>The receive queue\<close>

text \<open>
  \<^verbatim>\<open>
  void netdev_rx ( struct net_device *netdev, struct pk_buff *pkb ) {
          pkb->ll_protocol = netdev->ll_protocol;
          list_add_tail ( &pkb->list, &rx_queue );
  }
  \<close>
\<close>

definition netdev_rx :: "net_device \<Rightarrow> nat \<Rightarrow> net_state \<Rightarrow> net_state" where
  "netdev_rx netdev pkb s =
     (let s1 = s\<lparr>pk_buff_at := (pk_buff_at s)
                 (pkb := (pk_buff_at s pkb)\<lparr>pkb_ll_protocol := nd_ll_protocol netdev\<rparr>)\<rparr>
      in s1\<lparr>rx_queue := list_add_tail pkb (rx_queue s1)\<rparr>)"

text \<open>
  \<^verbatim>\<open>
  int net_poll ( void ) {
          struct net_device *netdev = &static_single_netdev;
          netdev->poll ( netdev );
          return ( ! list_empty ( &rx_queue ) );
  }
  \<close>
\<close>

definition net_poll :: "net_device \<Rightarrow> net_state \<Rightarrow> bool \<times> net_state" where
  "net_poll static_single_netdev s =
     (let netdev = static_single_netdev;
          s1 = poll netdev s
      in (\<not> list_empty (rx_queue s1), s1))"

text \<open>
  \<^verbatim>\<open>
  struct pk_buff * net_rx_dequeue ( void ) {
          struct pk_buff *pkb;
          list_for_each_entry ( pkb, &rx_queue, list ) {
                  list_del ( &pkb->list );
                  return pkb;
          }
          return NULL;
  }
  \<close>
  The loop body returns in its first iteration, so the loop is a case on the queue.
\<close>

definition net_rx_dequeue :: "net_state \<Rightarrow> nat option \<times> net_state" where
  "net_rx_dequeue s =
     (case rx_queue s of
        [] \<Rightarrow> (None, s)
      | pkb # rest \<Rightarrow> (Some pkb, s\<lparr>rx_queue := list_del pkb (rx_queue s)\<rparr>))"

subsection \<open>Lookup of protocols and addresses\<close>

text \<open>
  \<^verbatim>\<open>
  struct net_protocol * find_net_protocol ( uint16_t net_proto ) {
          struct net_protocol *net_protocol;
          for ( net_protocol = net_protocols ; net_protocol < net_protocols_end ;
                net_protocol++ ) {
                  if ( net_protocol->net_proto == net_proto )
                          return net_protocol;
          }
          return NULL;
  }
  \<close>
  The loop runs over the rest of the table; \<open>i\<close> is the index of its first entry.
\<close>

fun find_net_protocol_from :: "nat \<Rightarrow> net_protocol list \<Rightarrow> u16 \<Rightarrow> nat option" where
  "find_net_protocol_from i [] np = None"
| "find_net_protocol_from i (net_protocol # rest) np =
     (if net_proto net_protocol = np then Some i
      else find_net_protocol_from (Suc i) rest np)"

definition find_net_protocol :: "net_state \<Rightarrow> u16 \<Rightarrow> nat option" where
  "find_net_protocol s np = find_net_protocol_from 0 (net_protocols s) np"

text \<open>
  \<^verbatim>\<open>
  struct net_device *
  find_netdev_by_net_addr ( struct net_protocol *net_protocol, void *net_addr ) {
          struct net_address *net_address;
          struct net_device *netdev = &static_single_netdev;
          for ( net_address = static_single_netdev_addresses ;
                net_address < static_single_netdev_addresses_end ;
                net_address ++ ) {
                  if ( ( net_address->net_protocol == net_protocol ) &&
                       ( memcmp ( net_address->net_addr, net_addr,
                                  net_protocol->net_addr_len ) == 0 ) )
                          return netdev;
          }
          return NULL;
  }
  \<close>
  The result is \<open>Inl Fault\<close> where C is undefined: \<^verbatim>\<open>net_protocol\<close> is
  dereferenced and does not point into the table, or \<^verbatim>\<open>memcmp\<close> reads past the
  end of a region. The \<^verbatim>\<open>&&\<close> evaluates its right operand only when the left
  one holds.
\<close>

datatype fault = Fault

fun find_netdev_loop ::
  "net_device \<Rightarrow> net_protocol list \<Rightarrow> net_address list \<Rightarrow> nat \<Rightarrow> u8 list
     \<Rightarrow> fault + net_device option" where
  "find_netdev_loop netdev protos [] net_protocol addr = Inr None"
| "find_netdev_loop netdev protos (net_address # rest) net_protocol addr =
     (if na_net_protocol net_address = net_protocol then
        (if net_protocol < length protos then
           (case memcmp (net_addr net_address) addr
                   (net_addr_len (protos ! net_protocol)) of
              None \<Rightarrow> Inl Fault
            | Some r \<Rightarrow>
                if r = 0 then Inr (Some netdev)
                else find_netdev_loop netdev protos rest net_protocol addr)
         else Inl Fault)
      else find_netdev_loop netdev protos rest net_protocol addr)"

definition find_netdev_by_net_addr ::
  "net_device \<Rightarrow> net_state \<Rightarrow> nat \<Rightarrow> u8 list \<Rightarrow> fault + net_device option" where
  "find_netdev_by_net_addr static_single_netdev s net_protocol addr =
     (let netdev = static_single_netdev
      in find_netdev_loop netdev (net_protocols s) (static_single_netdev_addresses s)
           net_protocol addr)"

subsection \<open>Dispatch of a received packet\<close>

text \<open>
  The call \<^verbatim>\<open>net_protocol->rx_process ( pkb )\<close>: the handler's status code for the
  buffer as it is now, and the call recorded.
\<close>

definition call_rx_process :: "nat \<Rightarrow> nat \<Rightarrow> net_state \<Rightarrow> int \<times> net_state" where
  "call_rx_process net_protocol pkb s =
     (rx_process (net_protocols s ! net_protocol) (pk_buff_at s pkb),
      s\<lparr>rx_processed := rx_processed s @ [(net_protocol, pkb, pk_buff_at s pkb)]\<rparr>)"

text \<open>
  \<^verbatim>\<open>
  int net_rx_process ( struct pk_buff *pkb ) {
          struct ll_protocol *ll_protocol;
          struct ll_header llhdr;
          struct net_protocol *net_protocol;
          int rc;
          /* Parse link-layer header */
          ll_protocol = pkb->ll_protocol;
          ll_protocol->parse_llh ( pkb, &llhdr );
          /* Identify network-layer protocol */
          net_protocol = find_net_protocol ( llhdr.net_proto );
          if ( ! net_protocol ) {
                  free_pkb ( pkb );
                  return -EPROTONOSUPPORT;
          }
          pkb->net_protocol = net_protocol;
          /* Strip off link-layer header */
  #warning "Temporary hack"
          pkb_pull ( pkb, ETH_HLEN );
          /* Hand off to network layer */
          if ( ( rc = net_protocol->rx_process ( pkb ) ) != 0 ) {
                  return rc;
          }
          return 0;
  }
  \<close>
\<close>

definition net_rx_process :: "nat \<Rightarrow> net_state \<Rightarrow> int \<times> net_state" where
  "net_rx_process pkb s =
     (let ll_protocol = pkb_ll_protocol (pk_buff_at s pkb);
          llhdr = parse_llh (ll_protocol_at s ll_protocol) (pk_buff_at s pkb)
      in case find_net_protocol s (llh_net_proto llhdr) of
           None \<Rightarrow> (- EPROTONOSUPPORT, free_pkb pkb s)
         | Some net_protocol \<Rightarrow>
             (let s1 = s\<lparr>pk_buff_at := (pk_buff_at s)
                         (pkb := (pk_buff_at s pkb)\<lparr>pkb_net_protocol := Some net_protocol\<rparr>)\<rparr>;
                  s2 = pkb_pull pkb ETH_HLEN s1;
                  (rc, s3) = call_rx_process net_protocol pkb s2
              in if rc \<noteq> 0 then (rc, s3) else (0, s3)))"

subsection \<open>The step of the network stack\<close>

text \<open>
  \<^verbatim>\<open>
  static void net_step ( struct process *process ) {
          struct pk_buff *pkb;
          /* Poll for new packets */
          net_poll();
          /* Handle at most one received packet */
          if ( ( pkb = net_rx_dequeue () ) ) {
                  net_rx_process ( pkb );
          }
          /* Re-schedule ourself */
          schedule ( process );
  }
  \<close>
\<close>

definition net_step :: "net_device \<Rightarrow> nat \<Rightarrow> net_state \<Rightarrow> net_state" where
  "net_step static_single_netdev process s =
     (let (pending, s1) = net_poll static_single_netdev s;
          (r, s2) = net_rx_dequeue s1;
          s3 = (case r of
                  Some pkb \<Rightarrow> snd (net_rx_process pkb s2)
                | None \<Rightarrow> s2)
      in schedule process s3)"

subsection \<open>Registration\<close>

text \<open>
  \<^verbatim>\<open>
  int register_netdev ( struct net_device *netdev ) {
  #warning "Remove this static IP address hack"
          {
                  const struct in_addr static_address = { htonl ( 0x0afefe01 ) };
                  const struct in_addr static_netmask = { htonl ( 0xffffff00 ) };
                  const struct in_addr static_gateway = { INADDR_NONE };
                  int rc;
                  if ( ( rc = add_ipv4_address ( netdev, static_address,
                                                 static_netmask,
                                                 static_gateway ) ) != 0 )
                          return rc;
          }
          return 0;
  }
  void unregister_netdev ( struct net_device *netdev ) {
  #warning "Remove this static IP address hack"
          del_ipv4_address ( netdev );
  }
  \<close>
  The two functions only call the address-configuration collaborator, which is defined
  outside src/ and is a parameter here. An \<^verbatim>\<open>in_addr\<close> is given by its four bytes
  in memory, which \<^verbatim>\<open>htonl\<close> puts in network order; \<^verbatim>\<open>INADDR_NONE\<close> is the
  address of all ones.
\<close>

definition register_netdev ::
  "(net_device \<Rightarrow> u8 list \<Rightarrow> u8 list \<Rightarrow> u8 list \<Rightarrow> net_state \<Rightarrow> int \<times> net_state)
     \<Rightarrow> net_device \<Rightarrow> net_state \<Rightarrow> int \<times> net_state" where
  "register_netdev add_ipv4_address netdev s =
     (let static_address = [0x0a, 0xfe, 0xfe, 0x01];
          static_netmask = [0xff, 0xff, 0xff, 0x00];
          static_gateway = [0xff, 0xff, 0xff, 0xff];
          (rc, s1) = add_ipv4_address netdev static_address static_netmask static_gateway s
      in if rc \<noteq> 0 then (rc, s1) else (0, s1))"

definition unregister_netdev ::
  "(net_device \<Rightarrow> net_state \<Rightarrow> net_state) \<Rightarrow> net_device \<Rightarrow> net_state \<Rightarrow> net_state" where
  "unregister_netdev del_ipv4_address netdev s = del_ipv4_address netdev s"

subsection \<open>The address-configuration collaborator\<close>

text \<open>
  Modelled from the spec: the binding and the release of a network-layer address. The
  source calls the collaborator as \<^verbatim>\<open>add_ipv4_address\<close> and
  \<^verbatim>\<open>del_ipv4_address\<close>, which are defined outside src/. In the spec, binding a
  device to an address under a protocol adds the pair of protocol and address to the
  bound-address set of the device, releasing the binding removes the pair, and
  \<open>unbind(device)\<close> releases every address bound to the device. The bound-address set
  of the single device is the table \<open>static_single_netdev_addresses\<close>.
\<close>

definition bind_address :: "nat \<Rightarrow> u8 list \<Rightarrow> net_state \<Rightarrow> net_state" where
  "bind_address p a s =
     s\<lparr>static_single_netdev_addresses :=
         static_single_netdev_addresses s @ [\<lparr>na_net_protocol = p, net_addr = a\<rparr>]\<rparr>"

definition release_address :: "nat \<Rightarrow> u8 list \<Rightarrow> net_state \<Rightarrow> net_state" where
  "release_address p a s =
     s\<lparr>static_single_netdev_addresses :=
         removeAll \<lparr>na_net_protocol = p, net_addr = a\<rparr> (static_single_netdev_addresses s)\<rparr>"

definition unbind :: "net_state \<Rightarrow> net_state" where
  "unbind s = s\<lparr>static_single_netdev_addresses := []\<rparr>"

subsection \<open>Notions used in the statements\<close>

text \<open>
  The network-layer protocol id that \<open>net_rx_process\<close> looks up for a buffer: the
  \<^verbatim>\<open>net_proto\<close> of the header that the \<^verbatim>\<open>parse_llh\<close> of the buffer's
  link-layer protocol fills in.
\<close>

definition parsed_net_proto :: "nat \<Rightarrow> net_state \<Rightarrow> u16" where
  "parsed_net_proto pkb s =
     llh_net_proto (parse_llh (ll_protocol_at s (pkb_ll_protocol (pk_buff_at s pkb)))
        (pk_buff_at s pkb))"

text \<open>
  The buffer as \<open>net_rx_process\<close> hands it to the handler of the protocol it found:
  tagged with that protocol, and \<^verbatim>\<open>ETH_HLEN\<close> bytes pulled from its front.
\<close>

definition handed_over :: "nat \<Rightarrow> nat \<Rightarrow> net_state \<Rightarrow> pk_buff" where
  "handed_over net_protocol pkb s =
     (pk_buff_at s pkb)\<lparr>pkb_net_protocol := Some net_protocol,
        pkb_data := drop ETH_HLEN (pkb_data (pk_buff_at s pkb))\<rparr>"

text \<open>
  A sequence of operations on the receive queue: \<open>Push netdev pkb\<close> is the call
  \<^verbatim>\<open>netdev_rx ( netdev, pkb )\<close>, \<open>Pop\<close> the call \<^verbatim>\<open>net_rx_dequeue ()\<close>.
  \<open>rx_ops\<close> runs a sequence and returns the buffers the pops returned, in order (a pop
  that returns \<^verbatim>\<open>NULL\<close> returns no buffer), and the final state. \<open>pushed\<close> is the
  sequence of the buffers pushed. \<open>owned\<close> says that every push passes a buffer the
  queue does not hold at that moment: the caller owns what it hands over.
  \<open>enqueued_by ops m\<close> maps a buffer to the link-layer protocol of the device that
  pushed it last (\<open>m\<close> where the sequence has no push of it).
\<close>

datatype rx_op = Push net_device nat | Pop

fun rx_ops :: "rx_op list \<Rightarrow> net_state \<Rightarrow> nat list \<times> net_state" where
  "rx_ops [] s = ([], s)"
| "rx_ops (Push netdev pkb # ops) s = rx_ops ops (netdev_rx netdev pkb s)"
| "rx_ops (Pop # ops) s =
     (case net_rx_dequeue s of
        (None, s1) \<Rightarrow> rx_ops ops s1
      | (Some pkb, s1) \<Rightarrow> (let (out, s2) = rx_ops ops s1 in (pkb # out, s2)))"

fun pushed :: "rx_op list \<Rightarrow> nat list" where
  "pushed [] = []"
| "pushed (Push netdev pkb # ops) = pkb # pushed ops"
| "pushed (Pop # ops) = pushed ops"

fun owned :: "rx_op list \<Rightarrow> net_state \<Rightarrow> bool" where
  "owned [] s = True"
| "owned (Push netdev pkb # ops) s =
     (pkb \<notin> set (rx_queue s) \<and> owned ops (netdev_rx netdev pkb s))"
| "owned (Pop # ops) s = owned ops (snd (net_rx_dequeue s))"

fun enqueued_by :: "rx_op list \<Rightarrow> (nat \<Rightarrow> nat option) \<Rightarrow> nat \<Rightarrow> nat option" where
  "enqueued_by [] m = m"
| "enqueued_by (Push netdev pkb # ops) m = enqueued_by ops (m(pkb \<mapsto> nd_ll_protocol netdev))"
| "enqueued_by (Pop # ops) m = enqueued_by ops m"

subsection \<open>An example configuration\<close>

text \<open>
  Four link-layer protocols: at address 0 a framing with a 14-byte header that carries
  protocol 0x0800, at 1 one with a 4-byte header that carries 0x0800, at 2 one with a
  14-byte header that carries 0x0806, elsewhere one that carries 0x86DD. Two registered
  network-layer protocols: 0x0806, whose handler fails with -22, and 0x0800, whose
  handler succeeds. The buffer at address \<open>p\<close> holds 60 bytes (20 at address 11) and is
  tagged with the link-layer protocol at \<open>p - 10\<close>.
\<close>

definition ex_ll_protocol_at :: "nat \<Rightarrow> ll_protocol" where
  "ex_ll_protocol_at l =
     (if l = 0 then \<lparr>parse_llh = (\<lambda>pkb. \<lparr>llh_net_proto = 0x0800, llh_header_len = 14\<rparr>)\<rparr>
      else if l = 1 then \<lparr>parse_llh = (\<lambda>pkb. \<lparr>llh_net_proto = 0x0800, llh_header_len = 4\<rparr>)\<rparr>
      else if l = 2 then \<lparr>parse_llh = (\<lambda>pkb. \<lparr>llh_net_proto = 0x0806, llh_header_len = 14\<rparr>)\<rparr>
      else \<lparr>parse_llh = (\<lambda>pkb. \<lparr>llh_net_proto = 0x86DD, llh_header_len = 14\<rparr>)\<rparr>)"

definition ex_pk_buff_at :: "nat \<Rightarrow> pk_buff" where
  "ex_pk_buff_at p =
     \<lparr>pkb_data = replicate (if p = 11 then 20 else 60) 0,
      pkb_ll_protocol = p - 10, pkb_net_protocol = None\<rparr>"

definition ex_state :: net_state where
  "ex_state =
     \<lparr>net_protocols =
        [\<lparr>net_proto = 0x0806, net_addr_len = 4, rx_process = (\<lambda>pkb. - 22)\<rparr>,
         \<lparr>net_proto = 0x0800, net_addr_len = 4, rx_process = (\<lambda>pkb. 0)\<rparr>],
      static_single_netdev_addresses =
        [\<lparr>na_net_protocol = 1, net_addr = [10, 254, 254, 1, 0, 0]\<rparr>],
      rx_queue = [],
      ll_protocol_at = ex_ll_protocol_at,
      pk_buff_at = ex_pk_buff_at,
      freed = [],
      rx_processed = [],
      run_queue = []\<rparr>"

text \<open>A device whose poll method receives three packets, into the buffers 5, 6 and 7.\<close>

definition ex_poll :: "net_state \<Rightarrow> net_state" where
  "ex_poll s =
     (let d = \<lparr>nd_ll_protocol = 0, poll = (\<lambda>s. s)\<rparr>
      in netdev_rx d 7 (netdev_rx d 6 (netdev_rx d 5 s)))"

definition ex_netdev :: net_device where
  "ex_netdev = \<lparr>nd_ll_protocol = 0, poll = ex_poll\<rparr>"

text \<open>
  Two sequences of queue operations: three buffers pushed by one device with two pops in
  between, and two buffers pushed by devices of different link-layer protocols, then a
  pop.
\<close>

definition ex_ops :: "rx_op list" where
  "ex_ops = [Push ex_netdev 20, Push ex_netdev 21, Pop, Push ex_netdev 22, Pop]"

definition ex_ops2 :: "rx_op list" where
  "ex_ops2 =
     [Push \<lparr>nd_ll_protocol = 0, poll = (\<lambda>s. s)\<rparr> 20,
      Push \<lparr>nd_ll_protocol = 2, poll = (\<lambda>s. s)\<rparr> 21,
      Pop]"

section \<open>Properties\<close>

subsection \<open>Facts about the definitions\<close>

lemma find_net_protocol_from_None:
  "(find_net_protocol_from i tbl np = None) = (np \<notin> net_proto ` set tbl)"
  by (induction tbl arbitrary: i) auto

lemma find_net_protocol_from_Some:
  "find_net_protocol_from i tbl np = Some j \<Longrightarrow>
     i \<le> j \<and> j - i < length tbl \<and> net_proto (tbl ! (j - i)) = np \<and>
     (\<forall>k < j - i. net_proto (tbl ! k) \<noteq> np)"
proof (induction tbl arbitrary: i)
  case Nil
  then show ?case by simp
next
  case (Cons p ps)
  show ?case
  proof (cases "net_proto p = np")
    case True
    with Cons.prems show ?thesis by simp
  next
    case False
    with Cons.prems have rec: "find_net_protocol_from (Suc i) ps np = Some j" by simp
    from Cons.IH [OF rec] have ih: "Suc i \<le> j" "j - Suc i < length ps"
      "net_proto (ps ! (j - Suc i)) = np" "\<forall>k < j - Suc i. net_proto (ps ! k) \<noteq> np"
      by auto
    from ih(1) have eq: "j - i = Suc (j - Suc i)" by arith
    show ?thesis
      using ih False unfolding eq
      by (auto simp: less_Suc_eq_0_disj)
  qed
qed

lemma find_net_protocol_Some:
  assumes "find_net_protocol s np = Some i"
  shows "i < length (net_protocols s) \<and> net_proto (net_protocols s ! i) = np"
  using find_net_protocol_from_Some [of 0 "net_protocols s" np i] assms
  by (simp add: find_net_protocol_def)

lemma register_netdev_binds:
  "register_netdev (\<lambda>netdev address netmask gateway s. (0, bind_address p address s)) netdev s =
     (0, bind_address p [0x0a, 0xfe, 0xfe, 0x01] s)"
  "unregister_netdev (\<lambda>netdev. unbind) netdev s = unbind s"
  by (simp_all add: register_netdev_def unregister_netdev_def)

lemma net_rx_process_None:
  assumes "find_net_protocol s (parsed_net_proto pkb s) = None"
  shows "net_rx_process pkb s = (- EPROTONOSUPPORT, s\<lparr>freed := freed s @ [pkb]\<rparr>)"
  using assms by (simp add: net_rx_process_def parsed_net_proto_def free_pkb_def Let_def)

lemma net_rx_process_Some:
  assumes "find_net_protocol s (parsed_net_proto pkb s) = Some i"
  shows "net_rx_process pkb s =
     (rx_process (net_protocols s ! i) (handed_over i pkb s),
      s\<lparr>pk_buff_at := (pk_buff_at s)(pkb := handed_over i pkb s),
        rx_processed := rx_processed s @ [(i, pkb, handed_over i pkb s)]\<rparr>)"
  using assms
  by (simp add: net_rx_process_def parsed_net_proto_def pkb_pull_def call_rx_process_def
      handed_over_def Let_def)


lemma net_rx_process_outcome:
  "net_rx_process pkb s = (- EPROTONOSUPPORT, s\<lparr>freed := freed s @ [pkb]\<rparr>) \<or>
   (\<exists>i. net_rx_process pkb s =
      (rx_process (net_protocols s ! i) (handed_over i pkb s),
       s\<lparr>pk_buff_at := (pk_buff_at s)(pkb := handed_over i pkb s),
         rx_processed := rx_processed s @ [(i, pkb, handed_over i pkb s)]\<rparr>))"
proof (cases "find_net_protocol s (parsed_net_proto pkb s)")
  case None
  then show ?thesis by (simp add: net_rx_process_None)
next
  case (Some i)
  from net_rx_process_Some [OF Some] show ?thesis by blast
qed

lemma net_rx_process_keeps:
  "rx_queue (snd (net_rx_process pkb s)) = rx_queue s"
  "run_queue (snd (net_rx_process pkb s)) = run_queue s"
  using net_rx_process_outcome [of pkb s] by auto

lemma net_rx_process_one:
  "(freed (snd (net_rx_process pkb s)) = freed s @ [pkb] \<and>
    rx_processed (snd (net_rx_process pkb s)) = rx_processed s) \<or>
   (freed (snd (net_rx_process pkb s)) = freed s \<and>
    (\<exists>i. rx_processed (snd (net_rx_process pkb s)) =
       rx_processed s @ [(i, pkb, handed_over i pkb s)]))"
  using net_rx_process_outcome [of pkb s] by auto

lemma net_step_empty:
  assumes "rx_queue (poll netdev s) = []"
  shows "net_step netdev process s = schedule process (poll netdev s)"
  using assms by (simp add: net_step_def net_poll_def net_rx_dequeue_def Let_def)

lemma net_step_packet:
  assumes "rx_queue (poll netdev s) = pkb # rest"
  shows "net_step netdev process s =
     schedule process (snd (net_rx_process pkb ((poll netdev s)\<lparr>rx_queue := rest\<rparr>)))"
  using assms
  by (simp add: net_step_def net_poll_def net_rx_dequeue_def list_del_def Let_def)

lemma schedule_fields [simp]:
  "rx_queue (schedule process s) = rx_queue s"
  "freed (schedule process s) = freed s"
  "rx_processed (schedule process s) = rx_processed s"
  "run_queue (schedule process s) = run_queue s @ [process]"
  by (simp_all add: schedule_def)

lemma netdev_rx_fields [simp]:
  "rx_queue (netdev_rx netdev pkb s) = rx_queue s @ [pkb]"
  "pk_buff_at (netdev_rx netdev pkb s) =
     (pk_buff_at s)(pkb := (pk_buff_at s pkb)\<lparr>pkb_ll_protocol := nd_ll_protocol netdev\<rparr>)"
  "ll_protocol_at (netdev_rx netdev pkb s) = ll_protocol_at s"
  "net_protocols (netdev_rx netdev pkb s) = net_protocols s"
  "freed (netdev_rx netdev pkb s) = freed s"
  "rx_processed (netdev_rx netdev pkb s) = rx_processed s"
  by (simp_all add: netdev_rx_def list_add_tail_def Let_def)

lemma net_rx_dequeue_Nil:
  "rx_queue s = [] \<Longrightarrow> net_rx_dequeue s = (None, s)"
  by (simp add: net_rx_dequeue_def)

lemma net_rx_dequeue_Cons:
  "rx_queue s = pkb # rest \<Longrightarrow> net_rx_dequeue s = (Some pkb, s\<lparr>rx_queue := rest\<rparr>)"
  by (simp add: net_rx_dequeue_def list_del_def)

lemma rx_ops_fifo:
  "fst (rx_ops ops s) @ rx_queue (snd (rx_ops ops s)) = rx_queue s @ pushed ops"
proof (induction ops arbitrary: s)
  case Nil
  show ?case by simp
next
  case (Cons op ops)
  show ?case
  proof (cases op)
    case (Push netdev pkb)
    with Cons.IH [of "netdev_rx netdev pkb s"] show ?thesis by simp
  next
    case Pop
    show ?thesis
    proof (cases "rx_queue s")
      case Nil
      with Pop Cons.IH [of s] show ?thesis by (simp add: net_rx_dequeue_Nil)
    next
      case (Cons pkb rest)
      with Pop Cons.IH [of "s\<lparr>rx_queue := rest\<rparr>"] show ?thesis
        by (simp add: net_rx_dequeue_Cons case_prod_beta)
    qed
  qed
qed

lemma rx_ops_append:
  "rx_ops (ops1 @ ops2) s =
     (fst (rx_ops ops1 s) @ fst (rx_ops ops2 (snd (rx_ops ops1 s))),
      snd (rx_ops ops2 (snd (rx_ops ops1 s))))"
proof (induction ops1 arbitrary: s)
  case Nil
  show ?case by simp
next
  case (Cons op ops1)
  show ?case
  proof (cases op)
    case (Push netdev pkb)
    with Cons.IH [of "netdev_rx netdev pkb s"] show ?thesis by simp
  next
    case Pop
    show ?thesis
    proof (cases "rx_queue s")
      case Nil
      with Pop Cons.IH [of s] show ?thesis by (simp add: net_rx_dequeue_Nil)
    next
      case (Cons pkb rest)
      with Pop Cons.IH [of "s\<lparr>rx_queue := rest\<rparr>"] show ?thesis
        by (simp add: net_rx_dequeue_Cons case_prod_beta)
    qed
  qed
qed

lemma rx_ops_pops:
  "fst (rx_ops (replicate n Pop) s) = take n (rx_queue s) \<and>
   rx_queue (snd (rx_ops (replicate n Pop) s)) = drop n (rx_queue s)"
proof (induction n arbitrary: s)
  case 0
  show ?case by simp
next
  case (Suc n)
  show ?case
  proof (cases "rx_queue s")
    case Nil
    with Suc [of s] show ?thesis by (simp add: net_rx_dequeue_Nil)
  next
    case (Cons pkb rest)
    with Suc [of "s\<lparr>rx_queue := rest\<rparr>"] show ?thesis
      by (simp add: net_rx_dequeue_Cons case_prod_beta)
  qed
qed

lemma rx_ops_drain:
  assumes "length (rx_queue s) + length (pushed ops) \<le> n"
  shows "fst (rx_ops (ops @ replicate n Pop) s) = rx_queue s @ pushed ops"
    and "rx_queue (snd (rx_ops (ops @ replicate n Pop) s)) = []"
proof -
  let ?s1 = "snd (rx_ops ops s)"
  have "length (fst (rx_ops ops s) @ rx_queue ?s1) = length (rx_queue s @ pushed ops)"
    by (simp only: rx_ops_fifo)
  with assms have le: "length (rx_queue ?s1) \<le> n" by simp
  have "fst (rx_ops (ops @ replicate n Pop) s) = fst (rx_ops ops s) @ take n (rx_queue ?s1)"
    by (simp add: rx_ops_append rx_ops_pops)
  also have "\<dots> = fst (rx_ops ops s) @ rx_queue ?s1" using le by simp
  also have "\<dots> = rx_queue s @ pushed ops" by (rule rx_ops_fifo)
  finally show "fst (rx_ops (ops @ replicate n Pop) s) = rx_queue s @ pushed ops" .
  show "rx_queue (snd (rx_ops (ops @ replicate n Pop) s)) = []"
    using le by (simp add: rx_ops_append rx_ops_pops)
qed

lemma rx_ops_distinct:
  "owned ops s \<Longrightarrow> distinct (rx_queue s) \<Longrightarrow> distinct (rx_queue (snd (rx_ops ops s)))"
proof (induction ops arbitrary: s)
  case Nil
  then show ?case by simp
next
  case (Cons op ops)
  show ?case
  proof (cases op)
    case (Push netdev pkb)
    with Cons.prems Cons.IH [of "netdev_rx netdev pkb s"] show ?thesis by simp
  next
    case Pop
    show ?thesis
    proof (cases "rx_queue s")
      case Nil
      with Pop Cons.prems Cons.IH [of s] show ?thesis by (simp add: net_rx_dequeue_Nil)
    next
      case (Cons pkb rest)
      with Pop Cons.prems Cons.IH [of "s\<lparr>rx_queue := rest\<rparr>"] show ?thesis
        by (simp add: net_rx_dequeue_Cons case_prod_beta)
    qed
  qed
qed

lemma net_rx_dequeue_distinct:
  assumes "distinct (rx_queue s)" and "net_rx_dequeue s = (Some pkb, s')"
  shows "pkb \<notin> set (rx_queue s')"
  using assms by (cases "rx_queue s") (auto simp: net_rx_dequeue_Nil net_rx_dequeue_Cons)

lemma net_rx_dequeue_fields [simp]:
  "pk_buff_at (snd (net_rx_dequeue s)) = pk_buff_at s"
  "ll_protocol_at (snd (net_rx_dequeue s)) = ll_protocol_at s"
  "net_protocols (snd (net_rx_dequeue s)) = net_protocols s"
  "set (rx_queue (snd (net_rx_dequeue s))) \<subseteq> set (rx_queue s)"
  by (auto simp: net_rx_dequeue_def list_del_def split: list.splits)

lemma rx_ops_tags:
  "(\<forall>b \<in> set (rx_queue s). m b = Some (pkb_ll_protocol (pk_buff_at s b))) \<Longrightarrow>
   (\<forall>b \<in> set (rx_queue (snd (rx_ops ops s))).
      enqueued_by ops m b = Some (pkb_ll_protocol (pk_buff_at (snd (rx_ops ops s)) b)))"
proof (induction ops arbitrary: s m)
  case Nil
  then show ?case by simp
next
  case (Cons op ops)
  show ?case
  proof (cases op)
    case (Push netdev pkb)
    have "\<forall>b \<in> set (rx_queue (netdev_rx netdev pkb s)).
        (m(pkb \<mapsto> nd_ll_protocol netdev)) b =
          Some (pkb_ll_protocol (pk_buff_at (netdev_rx netdev pkb s) b))"
      using Cons.prems by simp
    from Cons.IH [OF this] Push show ?thesis by (simp add: fun_upd_def)
  next
    case Pop
    show ?thesis
    proof (cases "rx_queue s")
      case Nil
      with Pop Cons.prems Cons.IH [of s m] show ?thesis by (simp add: net_rx_dequeue_Nil)
    next
      case (Cons pkb rest)
      have "\<forall>b \<in> set (rx_queue (s\<lparr>rx_queue := rest\<rparr>)).
          m b = Some (pkb_ll_protocol (pk_buff_at (s\<lparr>rx_queue := rest\<rparr>) b))"
        using Cons.prems Cons by simp
      from Cons.IH [OF this] Pop Cons show ?thesis
        by (simp add: net_rx_dequeue_Cons case_prod_beta)
    qed
  qed
qed

lemma net_rx_process_framing:
  assumes "pkb_ll_protocol (pk_buff_at s pkb) = l"
  shows "net_rx_process pkb s =
     (case find_net_protocol s
             (llh_net_proto (parse_llh (ll_protocol_at s l) (pk_buff_at s pkb))) of
        None \<Rightarrow> (- EPROTONOSUPPORT, free_pkb pkb s)
      | Some i \<Rightarrow>
          (rx_process (net_protocols s ! i) (handed_over i pkb s),
           s\<lparr>pk_buff_at := (pk_buff_at s)(pkb := handed_over i pkb s),
             rx_processed := rx_processed s @ [(i, pkb, handed_over i pkb s)]\<rparr>))"
proof (cases "find_net_protocol s (parsed_net_proto pkb s)")
  case None
  with assms net_rx_process_None [OF None] show ?thesis
    by (simp add: parsed_net_proto_def free_pkb_def)
next
  case (Some i)
  with assms net_rx_process_Some [OF Some] show ?thesis
    by (simp add: parsed_net_proto_def)
qed

lemma memcmp_in_bounds:
  "n \<le> length a \<Longrightarrow> n \<le> length b \<Longrightarrow>
   \<exists>r. memcmp a b n = Some r \<and> (r = 0) = (take n a = take n b)"
proof (induction a b n rule: memcmp.induct)
  case (1 a b)
  show ?case by simp
next
  case (2 x a y b n)
  show ?case
  proof (cases "x = y")
    case True
    with 2 show ?thesis by simp
  next
    case False
    then have "uint x \<noteq> uint y"
      by (simp add: word_uint_eq_iff)
    with False show ?thesis by simp
  qed
qed simp_all

lemma find_netdev_loop_iff:
  assumes "p < length protos"
    and "\<forall>na \<in> set addrs. na_net_protocol na = p \<longrightarrow>
           net_addr_len (protos ! p) \<le> length (net_addr na)"
    and "net_addr_len (protos ! p) \<le> length addr"
  shows "find_netdev_loop netdev protos addrs p addr =
     Inr (if \<exists>na \<in> set addrs. na_net_protocol na = p \<and>
               take (net_addr_len (protos ! p)) (net_addr na) =
               take (net_addr_len (protos ! p)) addr
          then Some netdev else None)"
  using assms(2)
proof (induction addrs)
  case Nil
  show ?case by simp
next
  case (Cons na addrs)
  from Cons.prems have ih: "find_netdev_loop netdev protos addrs p addr =
     Inr (if \<exists>na \<in> set addrs. na_net_protocol na = p \<and>
               take (net_addr_len (protos ! p)) (net_addr na) =
               take (net_addr_len (protos ! p)) addr
          then Some netdev else None)"
    by (intro Cons.IH) simp
  show ?case
  proof (cases "na_net_protocol na = p")
    case False
    with ih show ?thesis by simp
  next
    case True
    with Cons.prems have "net_addr_len (protos ! p) \<le> length (net_addr na)" by simp
    from memcmp_in_bounds [OF this assms(3)]
    obtain r where r: "memcmp (net_addr na) addr (net_addr_len (protos ! p)) = Some r"
      "(r = 0) = (take (net_addr_len (protos ! p)) (net_addr na) =
                  take (net_addr_len (protos ! p)) addr)"
      by blast
    show ?thesis
    proof (cases "r = 0")
      case True
      with r \<open>na_net_protocol na = p\<close> assms(1) show ?thesis by simp
    next
      case False
      with r \<open>na_net_protocol na = p\<close> assms(1) ih show ?thesis by simp
    qed
  qed
qed

lemma net_address_eqI:
  "na_net_protocol na = p \<Longrightarrow> net_addr na = a \<Longrightarrow>
   na = \<lparr>na_net_protocol = p, net_addr = a\<rparr>"
  by (cases na) simp

text \<open>The example configuration, evaluated.\<close>

lemma ex_fields [simp]:
  "map net_proto (net_protocols ex_state) = [0x0806, 0x0800]"
  "length (net_protocols ex_state) = 2"
  "rx_process (net_protocols ex_state ! 0) = (\<lambda>pkb. - 22)"
  "rx_process (net_protocols ex_state ! Suc 0) = (\<lambda>pkb. 0)"
  "rx_queue ex_state = []"
  "freed ex_state = []"
  "rx_processed ex_state = []"
  "run_queue ex_state = []"
  "pk_buff_at ex_state = ex_pk_buff_at"
  "ll_protocol_at ex_state = ex_ll_protocol_at"
  by (simp_all add: ex_state_def)

lemma ex_parsed [simp]:
  "parsed_net_proto 10 ex_state = 0x0800"
  "parsed_net_proto 11 ex_state = 0x0800"
  "parsed_net_proto 12 ex_state = 0x0806"
  "parsed_net_proto 13 ex_state = 0x86DD"
  by (simp_all add: parsed_net_proto_def ex_ll_protocol_at_def ex_pk_buff_at_def)

lemma ex_find [simp]:
  "find_net_protocol ex_state 0x0800 = Some 1"
  "find_net_protocol ex_state 0x0806 = Some 0"
  "find_net_protocol ex_state 0x86DD = None"
  by (simp_all add: find_net_protocol_def ex_state_def)



lemma ex_poll_fields [simp]:
  "rx_queue (ex_poll ex_state) = [5, 6, 7]"
  "freed (ex_poll ex_state) = []"
  "rx_processed (ex_poll ex_state) = []"
  by (simp_all add: ex_poll_def netdev_rx_def list_add_tail_def Let_def)

lemma ex_netdev_poll [simp]: "poll ex_netdev = ex_poll"
  by (simp add: ex_netdev_def)

lemma ex_addresses [simp]:
  "static_single_netdev_addresses ex_state =
     [\<lparr>na_net_protocol = 1, net_addr = [10, 254, 254, 1, 0, 0]\<rparr>]"
  "net_addr_len (net_protocols ex_state ! 0) = 4"
  "net_addr_len (net_protocols ex_state ! Suc 0) = 4"
  by (simp_all add: ex_state_def)

subsection \<open>Polling\<close>

text \<open>
  C6. \<open>net_poll\<close> calls the poll method of the device on the state, and its result is
  true exactly when the receive queue of the state it leaves is not empty.
\<close>

theorem net_poll_pending:
  "snd (net_poll netdev s) = poll netdev s \<and>
   fst (net_poll netdev s) = (rx_queue (snd (net_poll netdev s)) \<noteq> [])"
  by (simp add: net_poll_def list_empty_def Let_def)

subsection \<open>Dispatch\<close>

text \<open>
  C3. When the protocol id parsed from a buffer has no entry in the table of
  network-layer protocols, \<open>net_rx_process\<close> frees the buffer and returns
  \<^verbatim>\<open>-EPROTONOSUPPORT\<close>; nothing else in the state changes: no handler is called
  and the table of protocols is as it was.
\<close>

theorem net_rx_process_unsupported:
  assumes "parsed_net_proto pkb s \<notin> net_proto ` set (net_protocols s)"
  shows "net_rx_process pkb s = (- EPROTONOSUPPORT, s\<lparr>freed := freed s @ [pkb]\<rparr>) \<and>
         fst (net_rx_process pkb s) = - EPROTONOSUPPORT \<and>
         freed (snd (net_rx_process pkb s)) = freed s @ [pkb] \<and>
         rx_processed (snd (net_rx_process pkb s)) = rx_processed s \<and>
         net_protocols (snd (net_rx_process pkb s)) = net_protocols s"
proof -
  from assms have "find_net_protocol s (parsed_net_proto pkb s) = None"
    by (simp add: find_net_protocol_def find_net_protocol_from_None)
  then show ?thesis by (simp add: net_rx_process_None)
qed

theorem net_rx_process_unsupported_witness:
  "parsed_net_proto 13 ex_state \<notin> net_proto ` set (net_protocols ex_state) \<and>
   fst (net_rx_process 13 ex_state) = - EPROTONOSUPPORT \<and>
   freed (snd (net_rx_process 13 ex_state)) = [13] \<and>
   rx_processed (snd (net_rx_process 13 ex_state)) = [] \<and>
   length (net_protocols (snd (net_rx_process 13 ex_state))) = 2"
proof -
  have h: "parsed_net_proto 13 ex_state \<notin> net_proto ` set (net_protocols ex_state)"
    using image_set [of net_proto "net_protocols ex_state"] by simp
  show ?thesis
    using h net_rx_process_unsupported [OF h] by simp
qed


text \<open>
  C5. When the protocol lookup succeeds, it finds an entry of the table whose protocol id
  is the parsed one, and \<open>net_rx_process\<close> returns the status code of that entry's
  \<^verbatim>\<open>rx_process\<close>: that code when it is not zero, and 0 when the handler
  succeeded. After the call it does nothing more: the state it leaves is the
  state in which the handler was called, with the call recorded; the buffer is as it was
  handed over, it is not freed and the queue is untouched.
\<close>

theorem net_rx_process_handler_code:
  assumes "find_net_protocol s (parsed_net_proto pkb s) = Some i"
  shows "i < length (net_protocols s) \<and>
         net_proto (net_protocols s ! i) = parsed_net_proto pkb s \<and>
         (rx_process (net_protocols s ! i) (handed_over i pkb s) \<noteq> 0 \<longrightarrow>
            fst (net_rx_process pkb s) = rx_process (net_protocols s ! i) (handed_over i pkb s)) \<and>
         (rx_process (net_protocols s ! i) (handed_over i pkb s) = 0 \<longrightarrow>
            fst (net_rx_process pkb s) = 0) \<and>
         snd (net_rx_process pkb s) =
           s\<lparr>pk_buff_at := (pk_buff_at s)(pkb := handed_over i pkb s),
             rx_processed := rx_processed s @ [(i, pkb, handed_over i pkb s)]\<rparr> \<and>
         pk_buff_at (snd (net_rx_process pkb s)) pkb = handed_over i pkb s \<and>
         freed (snd (net_rx_process pkb s)) = freed s \<and>
         rx_queue (snd (net_rx_process pkb s)) = rx_queue s"
  using net_rx_process_Some [OF assms] find_net_protocol_Some [OF assms] by simp

theorem net_rx_process_handler_code_witness:
  "find_net_protocol ex_state (parsed_net_proto 12 ex_state) = Some 0 \<and>
   rx_process (net_protocols ex_state ! 0) (handed_over 0 12 ex_state) = - 22 \<and>
   fst (net_rx_process 12 ex_state) = - 22 \<and>
   freed (snd (net_rx_process 12 ex_state)) = [] \<and>
   find_net_protocol ex_state (parsed_net_proto 10 ex_state) = Some 1 \<and>
   rx_process (net_protocols ex_state ! 1) (handed_over 1 10 ex_state) = 0 \<and>
   fst (net_rx_process 10 ex_state) = 0"
proof -
  have h2: "find_net_protocol ex_state (parsed_net_proto 12 ex_state) = Some 0" by simp
  have h0: "find_net_protocol ex_state (parsed_net_proto 10 ex_state) = Some 1" by simp
  have r2: "rx_process (net_protocols ex_state ! 0) (handed_over 0 12 ex_state) = - 22"
    by simp
  have r0: "rx_process (net_protocols ex_state ! 1) (handed_over 1 10 ex_state) = 0"
    by simp
  show ?thesis
    using h2 h0 r2 r0 net_rx_process_handler_code [OF h2] net_rx_process_handler_code [OF h0]
    by simp
qed


text \<open>
  C1. The handler found for the parsed protocol id is called once, and the buffer it is
  given should have lost the link-layer header, whose length the link-layer protocol
  gives. The source pulls \<^verbatim>\<open>ETH_HLEN\<close> bytes instead, under
  \<^verbatim>\<open>#warning "Temporary hack"\<close>. In the example, the buffer at address 11 holds
  20 bytes and its link-layer protocol reports a header of 4 bytes; the handler of
  protocol 1 is called once, with 6 bytes rather than 16.
\<close>

theorem net_rx_process_fixed_header_length:
  "length (pkb_data (pk_buff_at ex_state 11)) = 20 \<and>
   llh_header_len (parse_llh (ll_protocol_at ex_state (pkb_ll_protocol (pk_buff_at ex_state 11)))
      (pk_buff_at ex_state 11)) = 4 \<and>
   find_net_protocol ex_state (parsed_net_proto 11 ex_state) = Some 1 \<and>
   map (\<lambda>(i, p, b). (i, p, length (pkb_data b))) (rx_processed (snd (net_rx_process 11 ex_state)))
     = [(1, 11, 6)]"
proof -
  have h: "find_net_protocol ex_state (parsed_net_proto 11 ex_state) = Some 1" by simp
  have a: "length (pkb_data (pk_buff_at ex_state 11)) = 20"
    by (simp add: ex_pk_buff_at_def)
  have b: "llh_header_len (parse_llh (ll_protocol_at ex_state (pkb_ll_protocol (pk_buff_at ex_state 11)))
      (pk_buff_at ex_state 11)) = 4"
    by (simp add: ex_pk_buff_at_def ex_ll_protocol_at_def)
  have c: "length (pkb_data (handed_over 1 11 ex_state)) = 6"
    by (simp add: handed_over_def ex_pk_buff_at_def ETH_HLEN_def)
  have d: "rx_processed ex_state = []" by simp
  show ?thesis
    using a b c d h net_rx_process_Some [OF h] by simp
qed

subsection \<open>The step\<close>

text \<open>
  C2. One \<open>net_step\<close> polls the device first and then takes at most one packet from the
  queue that polling left. If that queue is empty, nothing is dispatched: no buffer is
  freed and no handler is called. If it is \<open>pkb # rest\<close>, exactly \<open>pkb\<close> is dispatched
  (it is freed, or one handler is called with it) and the queue after the step is
  \<open>rest\<close>, in order; with three buffers queued by polling, two stay.
\<close>

theorem net_step_at_most_one:
  "(rx_queue (poll netdev s) = [] \<longrightarrow>
      net_step netdev process s = schedule process (poll netdev s) \<and>
      rx_queue (net_step netdev process s) = [] \<and>
      freed (net_step netdev process s) = freed (poll netdev s) \<and>
      rx_processed (net_step netdev process s) = rx_processed (poll netdev s)) \<and>
   (\<forall>pkb rest. rx_queue (poll netdev s) = pkb # rest \<longrightarrow>
      net_step netdev process s =
        schedule process (snd (net_rx_process pkb ((poll netdev s)\<lparr>rx_queue := rest\<rparr>))) \<and>
      rx_queue (net_step netdev process s) = rest \<and>
      ((freed (net_step netdev process s) = freed (poll netdev s) @ [pkb] \<and>
        rx_processed (net_step netdev process s) = rx_processed (poll netdev s)) \<or>
       (freed (net_step netdev process s) = freed (poll netdev s) \<and>
        (\<exists>i b. rx_processed (net_step netdev process s) =
           rx_processed (poll netdev s) @ [(i, pkb, b)]))))"
proof (intro conjI impI allI)
  assume e: "rx_queue (poll netdev s) = []"
  show "net_step netdev process s = schedule process (poll netdev s)"
    by (rule net_step_empty [OF e])
  then show "rx_queue (net_step netdev process s) = []"
    "freed (net_step netdev process s) = freed (poll netdev s)"
    "rx_processed (net_step netdev process s) = rx_processed (poll netdev s)"
    using e by simp_all
next
  fix pkb rest
  assume q: "rx_queue (poll netdev s) = pkb # rest"
  let ?s2 = "(poll netdev s)\<lparr>rx_queue := rest\<rparr>"
  show eq: "net_step netdev process s = schedule process (snd (net_rx_process pkb ?s2))"
    by (rule net_step_packet [OF q])
  show "rx_queue (net_step netdev process s) = rest"
    by (simp add: eq net_rx_process_keeps)
  show "(freed (net_step netdev process s) = freed (poll netdev s) @ [pkb] \<and>
        rx_processed (net_step netdev process s) = rx_processed (poll netdev s)) \<or>
       (freed (net_step netdev process s) = freed (poll netdev s) \<and>
        (\<exists>i b. rx_processed (net_step netdev process s) =
           rx_processed (poll netdev s) @ [(i, pkb, b)]))"
    using net_rx_process_one [of pkb ?s2] by (auto simp: eq)
qed

theorem net_step_at_most_one_witness:
  "rx_queue (poll ex_netdev ex_state) = [5, 6, 7] \<and>
   rx_queue (net_step ex_netdev 0 ex_state) = [6, 7] \<and>
   length (freed (net_step ex_netdev 0 ex_state)) +
     length (rx_processed (net_step ex_netdev 0 ex_state)) = 1 \<and>
   rx_queue (poll \<lparr>nd_ll_protocol = 0, poll = (\<lambda>s. s)\<rparr> ex_state) = [] \<and>
   rx_processed (net_step \<lparr>nd_ll_protocol = 0, poll = (\<lambda>s. s)\<rparr> 0 ex_state) = [] \<and>
   freed (net_step \<lparr>nd_ll_protocol = 0, poll = (\<lambda>s. s)\<rparr> 0 ex_state) = []"
proof -
  have three: "rx_queue (poll ex_netdev ex_state) = [5, 6, 7]" by simp
  have none: "rx_queue (poll \<lparr>nd_ll_protocol = 0, poll = (\<lambda>s. s)\<rparr> ex_state) = []" by simp
  from net_step_at_most_one [of ex_netdev ex_state 0] three
  have a: "rx_queue (net_step ex_netdev 0 ex_state) = [6, 7]"
    and b: "length (freed (net_step ex_netdev 0 ex_state)) +
     length (rx_processed (net_step ex_netdev 0 ex_state)) = 1"
    by auto
  from net_step_at_most_one [of "\<lparr>nd_ll_protocol = 0, poll = (\<lambda>s. s)\<rparr>" ex_state 0] none
  have c: "rx_processed (net_step \<lparr>nd_ll_protocol = 0, poll = (\<lambda>s. s)\<rparr> 0 ex_state) = []"
    and d: "freed (net_step \<lparr>nd_ll_protocol = 0, poll = (\<lambda>s. s)\<rparr> 0 ex_state) = []"
    by auto
  from three none a b c d show ?thesis by simp
qed


text \<open>
  C9. Every \<open>net_step\<close> ends with \<^verbatim>\<open>schedule ( process )\<close>: whatever polling left
  and whatever became of the packet, the step's last action appends its own process to
  the run queue.
\<close>

theorem net_step_reschedules:
  "run_queue (net_step netdev process s) = run_queue (poll netdev s) @ [process] \<and>
   (\<exists>s3. net_step netdev process s = schedule process s3)"
proof (cases "rx_queue (poll netdev s)")
  case Nil
  then show ?thesis by (auto simp: net_step_empty)
next
  case (Cons pkb rest)
  then show ?thesis by (auto simp: net_step_packet net_rx_process_keeps)
qed

subsection \<open>The receive queue\<close>

text \<open>
  C4. Take a queue that holds no buffer twice and a sequence of pushes (\<open>netdev_rx\<close>)
  and pops (\<open>net_rx_dequeue\<close>) in which every push hands over a buffer that the queue
  does not hold at that moment: the caller owns what it pushes. Then
  \<^item> a pop on a queue \<open>pkb # rest\<close> returns \<open>pkb\<close> and leaves \<open>rest\<close>, which does not
    hold \<open>pkb\<close>; a pop on the empty queue returns \<^verbatim>\<open>NULL\<close> and changes nothing;
  \<^item> the buffers the pops returned, followed by the buffers still queued, are the
    buffers queued at the start followed by the buffers pushed, in the same order;
  \<^item> once the queue is drained by further pops, the pops have returned exactly the
    buffers queued at the start followed by the buffers pushed, in that order: from an
    empty queue, the sequence returned is the sequence pushed;
  \<^item> the queue never holds a buffer twice, and a buffer that a pop returns is no longer
    in the queue.
\<close>

theorem rx_queue_fifo_owned:
  assumes "distinct (rx_queue s)" and "owned ops s"
  shows "(\<forall>pkb rest. rx_queue (snd (rx_ops ops s)) = pkb # rest \<longrightarrow>
            net_rx_dequeue (snd (rx_ops ops s)) =
              (Some pkb, (snd (rx_ops ops s))\<lparr>rx_queue := rest\<rparr>) \<and>
            pkb \<notin> set rest) \<and>
         (rx_queue (snd (rx_ops ops s)) = [] \<longrightarrow>
            net_rx_dequeue (snd (rx_ops ops s)) = (None, snd (rx_ops ops s))) \<and>
         fst (rx_ops ops s) @ rx_queue (snd (rx_ops ops s)) = rx_queue s @ pushed ops \<and>
         (\<forall>n. length (rx_queue s) + length (pushed ops) \<le> n \<longrightarrow>
            fst (rx_ops (ops @ replicate n Pop) s) = rx_queue s @ pushed ops \<and>
            rx_queue (snd (rx_ops (ops @ replicate n Pop) s)) = []) \<and>
         (rx_queue s = [] \<longrightarrow>
            fst (rx_ops (ops @ replicate (length (pushed ops)) Pop) s) = pushed ops) \<and>
         distinct (rx_queue (snd (rx_ops ops s))) \<and>
         (\<forall>pkb s'. net_rx_dequeue (snd (rx_ops ops s)) = (Some pkb, s') \<longrightarrow>
            pkb \<notin> set (rx_queue s'))"
proof -
  let ?s1 = "snd (rx_ops ops s)"
  have d: "distinct (rx_queue ?s1)" by (rule rx_ops_distinct [OF assms(2,1)])
  have pop: "net_rx_dequeue ?s1 = (Some pkb, ?s1\<lparr>rx_queue := rest\<rparr>) \<and> pkb \<notin> set rest"
    if "rx_queue ?s1 = pkb # rest" for pkb rest
    using that d by (simp add: net_rx_dequeue_Cons)
  have none: "rx_queue ?s1 = [] \<longrightarrow> net_rx_dequeue ?s1 = (None, ?s1)"
    by (simp add: net_rx_dequeue_Nil)
  have drain0: "rx_queue s = [] \<longrightarrow>
      fst (rx_ops (ops @ replicate (length (pushed ops)) Pop) s) = pushed ops"
    using rx_ops_drain(1) [of s ops "length (pushed ops)"] by simp
  have nodup: "pkb \<notin> set (rx_queue s')" if "net_rx_dequeue ?s1 = (Some pkb, s')" for pkb s'
    by (rule net_rx_dequeue_distinct [OF d that])
  from pop none rx_ops_fifo [of ops s] rx_ops_drain [of s ops] drain0 d nodup
  show ?thesis by blast
qed

theorem rx_queue_fifo_owned_witness:
  "distinct (rx_queue ex_state) \<and> owned ex_ops ex_state \<and>
   rx_queue ex_state = [] \<and>
   pushed ex_ops = [20, 21, 22] \<and>
   fst (rx_ops ex_ops ex_state) = [20, 21] \<and>
   rx_queue (snd (rx_ops ex_ops ex_state)) = [22] \<and>
   fst (net_rx_dequeue (snd (rx_ops ex_ops ex_state))) = Some 22 \<and>
   rx_queue (snd (net_rx_dequeue (snd (rx_ops ex_ops ex_state)))) = [] \<and>
   fst (rx_ops (ex_ops @ replicate 3 Pop) ex_state) = [20, 21, 22]"
proof -
  have e: "distinct (rx_queue ex_state)" "rx_queue ex_state = []" by simp_all
  have o: "owned ex_ops ex_state"
    by (simp add: ex_ops_def net_rx_dequeue_def list_del_def)
  have p: "pushed ex_ops = [20, 21, 22]" by (simp add: ex_ops_def)
  have out: "fst (rx_ops ex_ops ex_state) = [20, 21]"
    by (simp add: ex_ops_def net_rx_dequeue_def list_del_def)
  have q: "rx_queue (snd (rx_ops ex_ops ex_state)) = [22]"
    by (simp add: ex_ops_def net_rx_dequeue_def list_del_def)
  note t = rx_queue_fifo_owned [OF e(1) o]
  from t q have pop: "net_rx_dequeue (snd (rx_ops ex_ops ex_state)) =
      (Some 22, (snd (rx_ops ex_ops ex_state))\<lparr>rx_queue := []\<rparr>)"
    by blast
  from t e(2) p have drain: "fst (rx_ops (ex_ops @ replicate 3 Pop) ex_state) = [20, 21, 22]"
    by simp
  from e o p out q pop drain show ?thesis by simp
qed


text \<open>
  Without the condition on the pushes the last part fails. When the buffer 20 is pushed
  a second time while it is queued, the pop that follows returns 20, and 20 is still in
  the queue. In C the second \<^verbatim>\<open>list_add_tail\<close> relinks the one node embedded in
  the buffer: the head of the list still points to it after the \<^verbatim>\<open>list_del\<close> of
  the pop, so there too the buffer returned is still the first of the queue.
\<close>

theorem rx_queue_repush_counterexample:
  "fst (rx_ops [Push ex_netdev 20, Push ex_netdev 20, Pop] ex_state) = [20] \<and>
   20 \<in> set (rx_queue (snd (rx_ops [Push ex_netdev 20, Push ex_netdev 20, Pop] ex_state)))"
  by (simp add: net_rx_dequeue_def list_del_def)


text \<open>
  C10. \<open>netdev_rx\<close> sets the link-layer protocol tag of the buffer to that of the
  device, whatever the tag was, changes nothing else of the buffer, and appends the
  buffer to the tail of the queue. So after any sequence of pushes and pops from an empty
  queue every queued buffer carries the link-layer protocol of the device that pushed it
  last, and \<open>net_rx_process\<close> on a buffer taken from the queue looks up the protocol id
  that the \<^verbatim>\<open>parse_llh\<close> of that device's link-layer protocol gives.
\<close>

theorem netdev_rx_ll_protocol:
  "pk_buff_at (netdev_rx netdev pkb s) =
     (pk_buff_at s)(pkb := (pk_buff_at s pkb)\<lparr>pkb_ll_protocol := nd_ll_protocol netdev\<rparr>) \<and>
   pkb_ll_protocol (pk_buff_at (netdev_rx netdev pkb s) pkb) = nd_ll_protocol netdev \<and>
   rx_queue (netdev_rx netdev pkb s) = rx_queue s @ [pkb] \<and>
   (rx_queue s = [] \<longrightarrow>
      (\<forall>b \<in> set (rx_queue (snd (rx_ops ops s))).
         enqueued_by ops Map.empty b =
           Some (pkb_ll_protocol (pk_buff_at (snd (rx_ops ops s)) b))) \<and>
      (\<forall>b s'. net_rx_dequeue (snd (rx_ops ops s)) = (Some b, s') \<longrightarrow>
         (\<exists>l. enqueued_by ops Map.empty b = Some l \<and>
            net_rx_process b s' =
              (case find_net_protocol s'
                      (llh_net_proto (parse_llh (ll_protocol_at s' l) (pk_buff_at s' b))) of
                 None \<Rightarrow> (- EPROTONOSUPPORT, free_pkb b s')
               | Some i \<Rightarrow>
                   (rx_process (net_protocols s' ! i) (handed_over i b s'),
                    s'\<lparr>pk_buff_at := (pk_buff_at s')(b := handed_over i b s'),
                      rx_processed := rx_processed s' @ [(i, b, handed_over i b s')]\<rparr>)))))"
proof (intro conjI impI allI)
  assume e: "rx_queue s = []"
  let ?s1 = "snd (rx_ops ops s)"
  from e have "\<forall>b \<in> set (rx_queue s). Map.empty b = Some (pkb_ll_protocol (pk_buff_at s b))"
    by simp
  from rx_ops_tags [OF this]
  show tags: "\<forall>b \<in> set (rx_queue ?s1).
      enqueued_by ops Map.empty b = Some (pkb_ll_protocol (pk_buff_at ?s1 b))" .
  fix b s'
  assume d: "net_rx_dequeue ?s1 = (Some b, s')"
  then have "b \<in> set (rx_queue ?s1)" and s': "s' = snd (net_rx_dequeue ?s1)"
    by (auto simp: net_rx_dequeue_def list_del_def split: list.splits)
  with tags have t: "enqueued_by ops Map.empty b = Some (pkb_ll_protocol (pk_buff_at s' b))"
    by simp
  from t net_rx_process_framing [of s' b "pkb_ll_protocol (pk_buff_at s' b)"]
  show "\<exists>l. enqueued_by ops Map.empty b = Some l \<and>
            net_rx_process b s' =
              (case find_net_protocol s'
                      (llh_net_proto (parse_llh (ll_protocol_at s' l) (pk_buff_at s' b))) of
                 None \<Rightarrow> (- EPROTONOSUPPORT, free_pkb b s')
               | Some i \<Rightarrow>
                   (rx_process (net_protocols s' ! i) (handed_over i b s'),
                    s'\<lparr>pk_buff_at := (pk_buff_at s')(b := handed_over i b s'),
                      rx_processed := rx_processed s' @ [(i, b, handed_over i b s')]\<rparr>))"
    by blast
qed simp_all

theorem netdev_rx_ll_protocol_witness:
  "rx_queue ex_state = [] \<and>
   rx_queue (snd (rx_ops ex_ops2 ex_state)) = [21] \<and>
   enqueued_by ex_ops2 Map.empty 21 = Some 2 \<and>
   pkb_ll_protocol (pk_buff_at ex_state 21) = 11 \<and>
   pkb_ll_protocol (pk_buff_at (snd (rx_ops ex_ops2 ex_state)) 21) = 2"
proof -
  have e: "rx_queue ex_state = []" by simp
  have q: "rx_queue (snd (rx_ops ex_ops2 ex_state)) = [21]"
    by (simp add: ex_ops2_def net_rx_dequeue_def list_del_def)
  have m: "enqueued_by ex_ops2 Map.empty 21 = Some 2"
    by (simp add: ex_ops2_def)
  have old: "pkb_ll_protocol (pk_buff_at ex_state 21) = 11"
    by (simp add: ex_pk_buff_at_def)
  from netdev_rx_ll_protocol [of _ _ ex_state ex_ops2] e q m
  have "pkb_ll_protocol (pk_buff_at (snd (rx_ops ex_ops2 ex_state)) 21) = 2"
    by simp
  with e q m old show ?thesis by simp
qed

subsection \<open>Lookup of a device by address\<close>

text \<open>
  C7. Where C is defined (the protocol pointer points into the table of protocols, and
  the compared regions hold at least \<^verbatim>\<open>net_addr_len\<close> bytes),
  \<open>find_netdev_by_net_addr\<close> returns the device exactly when some entry of the address
  table is bound under the given protocol and agrees with the given address on the first
  \<^verbatim>\<open>net_addr_len\<close> bytes of that protocol, whatever further bytes the caller's
  address has; otherwise it returns \<^verbatim>\<open>NULL\<close>, although the device exists. The
  source compares protocols as pointers; when the protocol ids of the table are
  distinct, that is the comparison of the protocol ids.
\<close>

theorem find_netdev_by_net_addr_match:
  assumes "p < length (net_protocols s)"
    and "\<forall>na \<in> set (static_single_netdev_addresses s). na_net_protocol na = p \<longrightarrow>
           net_addr_len (net_protocols s ! p) \<le> length (net_addr na)"
    and "net_addr_len (net_protocols s ! p) \<le> length addr"
  shows "find_netdev_by_net_addr netdev s p addr =
     Inr (if \<exists>na \<in> set (static_single_netdev_addresses s). na_net_protocol na = p \<and>
               take (net_addr_len (net_protocols s ! p)) (net_addr na) =
               take (net_addr_len (net_protocols s ! p)) addr
          then Some netdev else None) \<and>
     (distinct (map net_proto (net_protocols s)) \<and>
      (\<forall>na \<in> set (static_single_netdev_addresses s).
         na_net_protocol na < length (net_protocols s)) \<longrightarrow>
      (find_netdev_by_net_addr netdev s p addr = Inr (Some netdev)) =
      (\<exists>na \<in> set (static_single_netdev_addresses s).
         net_proto (net_protocols s ! na_net_protocol na) = net_proto (net_protocols s ! p) \<and>
         take (net_addr_len (net_protocols s ! p)) (net_addr na) =
         take (net_addr_len (net_protocols s ! p)) addr))"
proof (intro conjI impI)
  show eq: "find_netdev_by_net_addr netdev s p addr =
     Inr (if \<exists>na \<in> set (static_single_netdev_addresses s). na_net_protocol na = p \<and>
               take (net_addr_len (net_protocols s ! p)) (net_addr na) =
               take (net_addr_len (net_protocols s ! p)) addr
          then Some netdev else None)"
    unfolding find_netdev_by_net_addr_def Let_def
    by (rule find_netdev_loop_iff [OF assms])
  assume inv: "distinct (map net_proto (net_protocols s)) \<and>
      (\<forall>na \<in> set (static_single_netdev_addresses s).
         na_net_protocol na < length (net_protocols s))"
  have same: "(net_proto (net_protocols s ! na_net_protocol na) = net_proto (net_protocols s ! p))
        = (na_net_protocol na = p)"
    if "na \<in> set (static_single_netdev_addresses s)" for na
  proof -
    from that inv have v: "na_net_protocol na < length (net_protocols s)" by blast
    from inv have d: "distinct (map net_proto (net_protocols s))" by blast
    from nth_eq_iff_index_eq [OF d, of "na_net_protocol na" p] v assms(1)
    show ?thesis by simp
  qed
  show "(find_netdev_by_net_addr netdev s p addr = Inr (Some netdev)) =
      (\<exists>na \<in> set (static_single_netdev_addresses s).
         net_proto (net_protocols s ! na_net_protocol na) = net_proto (net_protocols s ! p) \<and>
         take (net_addr_len (net_protocols s ! p)) (net_addr na) =
         take (net_addr_len (net_protocols s ! p)) addr)"
    unfolding eq using same by auto
qed

theorem find_netdev_by_net_addr_match_witness:
  "(1::nat) < length (net_protocols ex_state) \<and>
   net_addr_len (net_protocols ex_state ! 1) = 4 \<and>
   distinct (map net_proto (net_protocols ex_state)) \<and>
   find_netdev_by_net_addr ex_netdev ex_state 1 [10, 254, 254, 1, 9, 9] = Inr (Some ex_netdev) \<and>
   find_netdev_by_net_addr ex_netdev ex_state 1 [10, 254, 254, 2] = Inr None \<and>
   find_netdev_by_net_addr ex_netdev ex_state 0 [10, 254, 254, 1] = Inr None"
proof -
  have v: "(1::nat) < length (net_protocols ex_state)" "(0::nat) < length (net_protocols ex_state)"
    by simp_all
  have n: "net_addr_len (net_protocols ex_state ! 1) = 4" by simp
  have d: "distinct (map net_proto (net_protocols ex_state))" by simp
  have b1: "\<forall>na \<in> set (static_single_netdev_addresses ex_state). na_net_protocol na = 1 \<longrightarrow>
           net_addr_len (net_protocols ex_state ! 1) \<le> length (net_addr na)"
    by simp
  have b0: "\<forall>na \<in> set (static_single_netdev_addresses ex_state). na_net_protocol na = 0 \<longrightarrow>
           net_addr_len (net_protocols ex_state ! 0) \<le> length (net_addr na)"
    by simp
  have l1: "net_addr_len (net_protocols ex_state ! 1) \<le> length [10, 254, 254, 1, 9, 9 :: u8]"
    and l2: "net_addr_len (net_protocols ex_state ! 1) \<le> length [10, 254, 254, 2 :: u8]"
    and l3: "net_addr_len (net_protocols ex_state ! 0) \<le> length [10, 254, 254, 1 :: u8]"
    by simp_all
  have r1: "find_netdev_by_net_addr ex_netdev ex_state 1 [10, 254, 254, 1, 9, 9] =
      Inr (Some ex_netdev)"
    using find_netdev_by_net_addr_match [OF v(1) b1 l1, of ex_netdev] by simp
  have r2: "find_netdev_by_net_addr ex_netdev ex_state 1 [10, 254, 254, 2] = Inr None"
    using find_netdev_by_net_addr_match [OF v(1) b1 l2, of ex_netdev] by simp
  have r3: "find_netdev_by_net_addr ex_netdev ex_state 0 [10, 254, 254, 1] = Inr None"
    using find_netdev_by_net_addr_match [OF v(2) b0 l3, of ex_netdev] by simp
  from v n d r1 r2 r3 show ?thesis by blast
qed


text \<open>
  C8. While the address table holds the entry of address \<open>a\<close> under protocol \<open>p\<close>, in
  particular after the address has been bound, \<open>find_netdev_by_net_addr\<close> for \<open>p\<close>
  and \<open>a\<close> returns the device; after the binding has been released, or all addresses
  of the device have been, it returns \<^verbatim>\<open>NULL\<close>. Addresses bound under \<open>p\<close>
  have the address length of \<open>p\<close>.
\<close>

theorem find_netdev_bound_released:
  assumes "p < length (net_protocols s)"
    and "\<forall>na \<in> set (static_single_netdev_addresses s). na_net_protocol na = p \<longrightarrow>
           length (net_addr na) = net_addr_len (net_protocols s ! p)"
    and "length a = net_addr_len (net_protocols s ! p)"
  shows "(\<lparr>na_net_protocol = p, net_addr = a\<rparr> \<in> set (static_single_netdev_addresses s) \<longrightarrow>
            find_netdev_by_net_addr netdev s p a = Inr (Some netdev)) \<and>
         find_netdev_by_net_addr netdev (bind_address p a s) p a = Inr (Some netdev) \<and>
         find_netdev_by_net_addr netdev (release_address p a s) p a = Inr None \<and>
         find_netdev_by_net_addr netdev (release_address p a (bind_address p a s)) p a =
           Inr None \<and>
         find_netdev_by_net_addr netdev (unbind s) p a = Inr None"
proof -
  let ?n = "net_addr_len (net_protocols s ! p)"
  let ?e = "\<lparr>na_net_protocol = p, net_addr = a\<rparr>"
  let ?tbl = "static_single_netdev_addresses s"
  have la: "?n \<le> length a" using assms(3) by simp
  have loop: "find_netdev_loop netdev (net_protocols s) addrs p a =
     Inr (if \<exists>na \<in> set addrs. na_net_protocol na = p \<and> net_addr na = a
          then Some netdev else None)"
    if sub: "\<forall>na \<in> set addrs. na_net_protocol na = p \<longrightarrow> length (net_addr na) = ?n"
    for addrs
  proof -
    from sub have b: "\<forall>na \<in> set addrs. na_net_protocol na = p \<longrightarrow> ?n \<le> length (net_addr na)"
      by simp
    have "(\<exists>na \<in> set addrs. na_net_protocol na = p \<and> take ?n (net_addr na) = take ?n a) =
          (\<exists>na \<in> set addrs. na_net_protocol na = p \<and> net_addr na = a)"
      using sub assms(3) by auto
    with find_netdev_loop_iff [OF assms(1) b la, of netdev] show ?thesis by simp
  qed
  have c1: "?e \<in> set ?tbl \<longrightarrow> find_netdev_by_net_addr netdev s p a = Inr (Some netdev)"
    using loop [OF assms(2)] by (force simp: find_netdev_by_net_addr_def)
  have s2: "\<forall>na \<in> set (?tbl @ [?e]). na_net_protocol na = p \<longrightarrow> length (net_addr na) = ?n"
    using assms(2,3) by auto
  have c2: "find_netdev_by_net_addr netdev (bind_address p a s) p a = Inr (Some netdev)"
    using loop [OF s2] by (simp add: find_netdev_by_net_addr_def bind_address_def)
  have s3: "\<forall>na \<in> set (removeAll ?e addrs). na_net_protocol na = p \<longrightarrow> length (net_addr na) = ?n"
    if "\<forall>na \<in> set addrs. na_net_protocol na = p \<longrightarrow> length (net_addr na) = ?n" for addrs
    using that by auto
  have none: "\<not> (\<exists>na \<in> set (removeAll ?e addrs). na_net_protocol na = p \<and> net_addr na = a)"
    for addrs
    using net_address_eqI by fastforce
  have c3: "find_netdev_by_net_addr netdev (release_address p a s) p a = Inr None"
    using loop [OF s3 [OF assms(2)]] none [of ?tbl]
    by (simp add: find_netdev_by_net_addr_def release_address_def)
  have c4: "find_netdev_by_net_addr netdev (release_address p a (bind_address p a s)) p a =
      Inr None"
    using loop [OF s3 [OF s2]] none [of "?tbl @ [?e]"]
    by (simp add: find_netdev_by_net_addr_def release_address_def bind_address_def)
  have c5: "find_netdev_by_net_addr netdev (unbind s) p a = Inr None"
    by (simp add: find_netdev_by_net_addr_def unbind_def)
  from c1 c2 c3 c4 c5 show ?thesis by blast
qed

theorem find_netdev_bound_released_witness:
  "(0::nat) < length (net_protocols ex_state) \<and>
   length [192, 168, 0, 1 :: u8] = net_addr_len (net_protocols ex_state ! 0) \<and>
   find_netdev_by_net_addr ex_netdev (bind_address 0 [192, 168, 0, 1] ex_state)
     0 [192, 168, 0, 1] = Inr (Some ex_netdev) \<and>
   find_netdev_by_net_addr ex_netdev
     (release_address 0 [192, 168, 0, 1] (bind_address 0 [192, 168, 0, 1] ex_state))
     0 [192, 168, 0, 1] = Inr None \<and>
   find_netdev_by_net_addr ex_netdev (unbind ex_state) 0 [192, 168, 0, 1] = Inr None"
proof -
  have v: "(0::nat) < length (net_protocols ex_state)" by simp
  have l: "length [192, 168, 0, 1 :: u8] = net_addr_len (net_protocols ex_state ! 0)" by simp
  have b: "\<forall>na \<in> set (static_single_netdev_addresses ex_state). na_net_protocol na = 0 \<longrightarrow>
           length (net_addr na) = net_addr_len (net_protocols ex_state ! 0)"
    by simp
  from v l find_netdev_bound_released [OF v b l, of ex_netdev] show ?thesis by blast
qed

end
